theory Spec2Isabelle
  imports Main "HOL-Library.Word"
begin

section \<open>The RCON client of rconbot (src/rconbot/rcon.py)\<close>

text \<open>
  The client talks to a game server over one TCP connection. A packet on the wire is a
  4-byte unsigned little-endian length followed by a body: request id (4 bytes, signed,
  little-endian), type (4 bytes, signed, little-endian), payload and one pad byte.
  Python exceptions are values of \<open>error\<close>; a method of the client takes the client
  and returns its result together with the client as the call left it, since a raise
  keeps every mutation made before it.
\<close>

subsection \<open>Bytes, text and Python's integer conversions\<close>

type_synonym byte = "8 word"
type_synonym bytes = "byte list"

text \<open>A Python \<open>str\<close> is a sequence of code points.\<close>

type_synonym str = "nat list"

text \<open>
  One constructor per \<open>raise\<close> of the source, carrying the numbers its message prints,
  plus the two exceptions of the built-ins the source calls (\<open>int.to_bytes\<close>,
  \<open>str.encode\<close>).
\<close>

datatype error =
    DataNotBytes
  | DataNotStr
  | TooLargeData nat
  | IncorrectLength nat
  | TooSmallPacket nat
  | TooBigPacket nat
  | IncorrectPacket nat nat
  | NotZeroTerminated
  | InvalidRequestID int int
  | InvalidResponseType int int
  | OverflowError
  | UnicodeEncodeError

text \<open>\<open>le_bytes n x\<close>: the \<open>n\<close> low-order bytes of \<open>x\<close>, least significant first.\<close>

fun le_bytes :: "nat \<Rightarrow> int \<Rightarrow> bytes" where
  "le_bytes 0 x = []"
| "le_bytes (Suc n) x = word_of_int x # le_bytes n (x div 256)"

text \<open>\<open>x.to_bytes(n, "little", signed=s)\<close>: OverflowError when \<open>x\<close> does not fit.\<close>

definition to_bytes :: "int \<Rightarrow> nat \<Rightarrow> bool \<Rightarrow> error + bytes" where
  "to_bytes x n is_signed =
     (if n = 0 then (if x = 0 then Inr [] else Inl OverflowError)
      else if is_signed then
        (if - (2 ^ (8 * n - 1)) \<le> x \<and> x < 2 ^ (8 * n - 1) then Inr (le_bytes n x)
         else Inl OverflowError)
      else
        (if 0 \<le> x \<and> x < 2 ^ (8 * n) then Inr (le_bytes n x) else Inl OverflowError))"

fun from_bytes_unsigned :: "bytes \<Rightarrow> int" where
  "from_bytes_unsigned [] = 0"
| "from_bytes_unsigned (b # bs) = uint b + 256 * from_bytes_unsigned bs"

text \<open>\<open>int.from_bytes(bs, "little", signed=s)\<close>.\<close>

definition from_bytes :: "bytes \<Rightarrow> bool \<Rightarrow> int" where
  "from_bytes bs is_signed =
     (let u = from_bytes_unsigned bs
      in if is_signed \<and> bs \<noteq> [] \<and> 2 ^ (8 * length bs - 1) \<le> u then u - 2 ^ (8 * length bs)
         else u)"

text \<open>
  \<open>xs[start:stop]\<close> with Python's rules: a negative index counts from the end, and both
  ends are clamped to the sequence.
\<close>

definition slice_index :: "nat \<Rightarrow> int \<Rightarrow> nat" where
  "slice_index len k = (if k < 0 then nat (max 0 (int len + k)) else min len (nat k))"

definition slice_py :: "'a list \<Rightarrow> int \<Rightarrow> int \<Rightarrow> 'a list" where
  "slice_py xs start stop =
     (let a = slice_index (length xs) start; b = slice_index (length xs) stop
      in take (b - a) (drop a xs))"

text \<open>\<open>d.find(b"\0")\<close> for a one-byte needle: the first index holding it, or -1.\<close>

fun bytes_find :: "bytes \<Rightarrow> byte \<Rightarrow> int" where
  "bytes_find [] z = - 1"
| "bytes_find (b # bs) z = (if b = z then 0 else (let k = bytes_find bs z in if k = - 1 then - 1 else k + 1))"

text \<open>
  \<open>str.encode()\<close>, that is UTF-8. A surrogate code point raises UnicodeEncodeError; a
  value above U+10FFFF is no code point of a Python string and is refused alike.
\<close>

definition encode_char :: "nat \<Rightarrow> error + bytes" where
  "encode_char cp =
     (if cp < 128 then Inr [of_nat cp]
      else if cp < 2048 then Inr [of_nat (192 + cp div 64), of_nat (128 + cp mod 64)]
      else if cp < 65536 then
        (if 55296 \<le> cp \<and> cp \<le> 57343 then Inl UnicodeEncodeError
         else Inr [of_nat (224 + cp div 4096), of_nat (128 + cp div 64 mod 64),
                   of_nat (128 + cp mod 64)])
      else if cp < 1114112 then
        Inr [of_nat (240 + cp div 262144), of_nat (128 + cp div 4096 mod 64),
             of_nat (128 + cp div 64 mod 64), of_nat (128 + cp mod 64)]
      else Inl UnicodeEncodeError)"

fun encode :: "str \<Rightarrow> error + bytes" where
  "encode [] = Inr []"
| "encode (cp # s) =
     (case encode_char cp of
        Inl e \<Rightarrow> Inl e
      | Inr bs \<Rightarrow> (case encode s of Inl e \<Rightarrow> Inl e | Inr rest \<Rightarrow> Inr (bs @ rest)))"

subsection \<open>Packets\<close>

datatype PacketType = LOGIN | EXECUTE | RESPONSE

fun PacketType_value :: "PacketType \<Rightarrow> int" where
  "PacketType_value LOGIN = 3"
| "PacketType_value EXECUTE = 2"
| "PacketType_value RESPONSE = 0"

datatype pydata = Str str | Bytes bytes

text \<open>The field \<open>type\<close> is an \<open>IntEnum\<close> member or an int: an int either way.\<close>

record Packet =
  request_id :: int
  type :: int
  data :: pydata

definition must_bytes :: "Packet \<Rightarrow> error + bytes" where
  "must_bytes p = (case data p of Bytes b \<Rightarrow> Inr b | Str s \<Rightarrow> Inl DataNotBytes)"

definition must_str :: "Packet \<Rightarrow> error + str" where
  "must_str p = (case data p of Str s \<Rightarrow> Inr s | Bytes b \<Rightarrow> Inl DataNotStr)"

text \<open>
  \<open>_build_packet\<close>. The \<open>TypeError\<close> branch needs data that is neither \<open>str\<close> nor
  \<open>bytes\<close>, which \<open>pydata\<close> excludes. The payload is checked before the two
  \<open>to_bytes\<close> calls run.
\<close>

definition build_packet :: "Packet \<Rightarrow> error + bytes" where
  "build_packet packet =
     (case (case data packet of Str s \<Rightarrow> encode s | Bytes b \<Rightarrow> Inr b) of
        Inl e \<Rightarrow> Inl e
      | Inr d \<Rightarrow>
          if length d > 4096 then Inl (TooLargeData (length d))
          else (case to_bytes (request_id packet) 4 True of
                  Inl e \<Rightarrow> Inl e
                | Inr rb \<Rightarrow>
                    (case to_bytes (type packet) 4 True of
                       Inl e \<Rightarrow> Inl e
                     | Inr tb \<Rightarrow> Inr (rb @ tb @ d @ [0]))))"

subsection \<open>The transport\<close>

text \<open>
  The connection is an \<open>asyncio\<close> stream pair. The reader is the sequence of chunks
  still to arrive, in order; the end of the sequence is the end of the stream.
  \<open>read(n)\<close> returns at most \<open>n\<close> bytes of what has arrived: here the next chunk, or
  its first \<open>n\<close> bytes with the rest left for the next read, and \<open>b""\<close> at the end of
  the stream. The writer is every byte written so far.
\<close>

fun reader_read :: "nat \<Rightarrow> bytes list \<Rightarrow> bytes \<times> bytes list" where
  "reader_read n [] = ([], [])"
| "reader_read n (c # cs) =
     (if c = [] then reader_read n cs
      else (take n c, if drop n c = [] then cs else drop n c # cs))"

record RCONClient =
  priv_i :: int
  priv_reader :: "bytes list"
  priv_writer :: bytes

text \<open>\<open>__init__\<close> followed by \<open>open\<close> on a connection that will deliver \<open>chunks\<close>.\<close>

definition new_client :: "bytes list \<Rightarrow> RCONClient" where
  "new_client chunks = \<lparr>priv_i = 0, priv_reader = chunks, priv_writer = []\<rparr>"

definition client_read :: "nat \<Rightarrow> RCONClient \<Rightarrow> bytes \<times> RCONClient" where
  "client_read n c =
     (let (bs, r) = reader_read n (priv_reader c) in (bs, c\<lparr>priv_reader := r\<rparr>))"

subsection \<open>Receiving\<close>

definition recv_packet :: "RCONClient \<Rightarrow> (error + Packet) \<times> RCONClient" where
  "recv_packet c =
     (let (nb, c1) = client_read 4 c
      in if length nb \<noteq> 4 then (Inl (IncorrectLength (length nb)), c1)
         else
           (let n = nat (from_bytes nb False)
            in if n < 9 then (Inl (TooSmallPacket n), c1)
               else if n > 1455 then (Inl (TooBigPacket n), c1)
               else
                 (let (packet, c2) = client_read n c1
                  in if length packet \<noteq> n then (Inl (IncorrectPacket n (length packet)), c2)
                     else (Inr \<lparr>request_id = from_bytes (slice_py packet 0 4) True,
                                type = from_bytes (slice_py packet 4 8) True,
                                data = Bytes (slice_py packet 8 (- 1))\<rparr>, c2))))"

definition recv_text_packet :: "RCONClient \<Rightarrow> (error + Packet) \<times> RCONClient" where
  "recv_text_packet c =
     (case recv_packet c of
        (Inl e, c1) \<Rightarrow> (Inl e, c1)
      | (Inr packet, c1) \<Rightarrow>
          (case must_bytes packet of
             Inl e \<Rightarrow> (Inl e, c1)
           | Inr d \<Rightarrow>
               (let zero = bytes_find d 0
                in if zero = - 1 then (Inl NotZeroTerminated, c1)
                   else (Inr \<lparr>request_id = request_id packet, type = type packet,
                              data = Bytes (slice_py d 0 zero)\<rparr>, c1))))"

subsection \<open>Sending\<close>

definition send_packet :: "Packet \<Rightarrow> RCONClient \<Rightarrow> (error + unit) \<times> RCONClient" where
  "send_packet packet c =
     (case build_packet packet of
        Inl e \<Rightarrow> (Inl e, c)
      | Inr payload \<Rightarrow>
          (case to_bytes (int (length payload)) 4 False of
             Inl e \<Rightarrow> (Inl e, c)
           | Inr lb \<Rightarrow> (Inr (), c\<lparr>priv_writer := priv_writer c @ lb @ payload\<rparr>)))"

definition send_text_packet :: "Packet \<Rightarrow> RCONClient \<Rightarrow> (error + unit) \<times> RCONClient" where
  "send_text_packet packet c =
     (case must_str packet of
        Inl e \<Rightarrow> (Inl e, c)
      | Inr s \<Rightarrow>
          (case encode s of
             Inl e \<Rightarrow> (Inl e, c)
           | Inr b \<Rightarrow>
               send_packet \<lparr>request_id = request_id packet, type = type packet,
                            data = Bytes (b @ [0])\<rparr> c))"

subsection \<open>The session: login and execute\<close>

definition login :: "str \<Rightarrow> RCONClient \<Rightarrow> (error + unit) \<times> RCONClient" where
  "login password c =
     (let i = priv_i c; c0 = c\<lparr>priv_i := priv_i c + 1\<rparr>
      in case send_text_packet
                \<lparr>request_id = i, type = PacketType_value LOGIN, data = Str password\<rparr> c0 of
           (Inl e, c1) \<Rightarrow> (Inl e, c1)
         | (Inr u, c1) \<Rightarrow>
             (case recv_packet c1 of
                (Inl e, c2) \<Rightarrow> (Inl e, c2)
              | (Inr packet, c2) \<Rightarrow>
                  if request_id packet \<noteq> i
                  then (Inl (InvalidRequestID i (request_id packet)), c2)
                  else (Inr (), c2)))"

text \<open>
  One pass through the body of the \<open>while True\<close> loop of \<open>execute\<close>. The local
  \<open>result\<close> is passed in and handed back as the pass left it, also at a raise; a
  pass that did not raise says whether it reached \<open>break\<close>.
\<close>

definition execute_body ::
  "int \<Rightarrow> bytes \<Rightarrow> RCONClient \<Rightarrow> (error + bool) \<times> bytes \<times> RCONClient" where
  "execute_body i result c =
     (case recv_text_packet c of
        (Inl e, c1) \<Rightarrow> (Inl e, result, c1)
      | (Inr packet, c1) \<Rightarrow>
          if request_id packet \<noteq> i
          then (Inl (InvalidRequestID i (request_id packet)), result, c1)
          else if type packet \<noteq> PacketType_value RESPONSE
          then (Inl (InvalidResponseType (PacketType_value RESPONSE) (type packet)), result, c1)
          else (case must_bytes packet of
                  Inl e \<Rightarrow> (Inl e, result, c1)
                | Inr payload \<Rightarrow>
                    (Inr (length payload < 4096), result @ payload, c1)))"

text \<open>
  The loop ends: a pass that does not raise has taken a whole frame off the reader, and
  the reader holds finitely many bytes.
\<close>

definition rsize :: "bytes list \<Rightarrow> nat" where
  "rsize r = sum_list (map length r)"

lemma reader_read_size:
  "reader_read n r = (bs, r') \<Longrightarrow> rsize r' + length bs = rsize r"
  by (induction r) (auto simp: rsize_def split: if_splits)

lemma client_read_size:
  "client_read n c = (bs, c') \<Longrightarrow> rsize (priv_reader c') + length bs = rsize (priv_reader c)"
  by (auto simp: client_read_def split: prod.splits dest: reader_read_size)

lemma recv_packet_consumes:
  "recv_packet c = (Inr p, c') \<Longrightarrow> rsize (priv_reader c') < rsize (priv_reader c)"
  by (auto simp: recv_packet_def Let_def split: prod.splits if_splits dest!: client_read_size)

lemma recv_text_packet_consumes:
  "recv_text_packet c = (Inr p, c') \<Longrightarrow> rsize (priv_reader c') < rsize (priv_reader c)"
  by (auto simp: recv_text_packet_def Let_def split: prod.splits sum.splits if_splits
           dest: recv_packet_consumes)

lemma execute_body_consumes:
  "execute_body i result c = (Inr b, result', c') \<Longrightarrow>
   rsize (priv_reader c') < rsize (priv_reader c)"
  by (auto simp: execute_body_def split: prod.splits sum.splits if_splits
           dest: recv_text_packet_consumes)

function execute_loop :: "int \<Rightarrow> bytes \<Rightarrow> RCONClient \<Rightarrow> (error + bytes) \<times> RCONClient" where
  "execute_loop i result c =
     (case execute_body i result c of
        (Inl e, result', c1) \<Rightarrow> (Inl e, c1)
      | (Inr brk, result', c1) \<Rightarrow>
          if brk then (Inr result', c1) else execute_loop i result' c1)"
  by pat_completeness auto
termination
  by (relation "measure (\<lambda>(i, result, c). rsize (priv_reader c))")
     (auto dest: execute_body_consumes [OF sym])

declare execute_loop.simps [simp del]

text \<open>\<open>execute\<close>; the \<open>print(payload)\<close> of the loop writes to stdout only.\<close>

definition execute :: "str \<Rightarrow> RCONClient \<Rightarrow> (error + bytes) \<times> RCONClient" where
  "execute command c =
     (let i = priv_i c; c0 = c\<lparr>priv_i := priv_i c + 1\<rparr>
      in case send_text_packet
                \<lparr>request_id = i, type = PacketType_value EXECUTE, data = Str command\<rparr> c0 of
           (Inl e, c1) \<Rightarrow> (Inl e, c1)
         | (Inr u, c1) \<Rightarrow> execute_loop i [] c1)"

section \<open>Facts about the conversions and the slices\<close>

lemma length_le_bytes: "length (le_bytes n x) = n"
  by (induction n arbitrary: x) auto

lemma le_bytes_nonempty: "0 < n \<Longrightarrow> le_bytes n x \<noteq> []"
  by (cases n) auto

lemma from_bytes_unsigned_le_bytes: "from_bytes_unsigned (le_bytes n x) = x mod 2 ^ (8 * n)"
proof (induction n arbitrary: x)
  case 0
  then show ?case by simp
next
  case (Suc n)
  have "x mod 2 ^ (8 * Suc n) = x mod (256 * 2 ^ (8 * n))"
    by (simp add: power_add)
  also have "\<dots> = 256 * (x div 256 mod 2 ^ (8 * n)) + x mod 256"
    using mod_mult2_eq' [of x 256 "2 ^ (8 * n)"] by simp
  finally show ?case
    using Suc by (simp add: uint_word_of_int)
qed

lemma from_bytes_unsigned_nonneg: "0 \<le> from_bytes_unsigned bs"
  by (induction bs) auto

lemma from_bytes_unsigned_bound: "from_bytes_unsigned bs < 2 ^ (8 * length bs)"
proof (induction bs)
  case Nil
  then show ?case by simp
next
  case (Cons b bs)
  have "uint b < 256" using uint_bounded [of b] by simp
  moreover have "from_bytes_unsigned bs + 1 \<le> 2 ^ (8 * length bs)" using Cons by simp
  then have "256 * (from_bytes_unsigned bs + 1) \<le> 256 * 2 ^ (8 * length bs)" by simp
  ultimately show ?case by (simp add: power_add algebra_simps)
qed

lemma from_bytes_horner: "from_bytes_unsigned bs = horner_sum uint 256 bs"
  by (induction bs) auto

lemma from_bytes_signed_4:
  assumes "length bs = 4"
  shows "from_bytes bs True = sint (word_rcat (rev bs) :: 32 word)"
proof -
  let ?u = "from_bytes_unsigned bs"
  have b: "0 \<le> ?u" "?u < 2 ^ 32"
    using from_bytes_unsigned_nonneg [of bs] from_bytes_unsigned_bound [of bs] assms by simp_all
  have "sint (word_rcat (rev bs) :: 32 word) = signed_take_bit 31 ?u"
    by (simp add: word_rcat_def from_bytes_horner sint_sbintrunc')
  also have "\<dots> = (if 2 ^ 31 \<le> ?u then ?u - 2 ^ 32 else ?u)"
  proof (cases "2 ^ 31 \<le> ?u")
    case True
    have "(?u + 2 ^ 31) mod 2 ^ 32 = (?u + 2 ^ 31 - 2 ^ 32) mod 2 ^ 32"
      by (metis mod_diff_right_eq mod_self diff_zero)
    also have "\<dots> = ?u + 2 ^ 31 - 2 ^ 32"
      using True b by (intro mod_pos_pos_trivial) simp_all
    finally show ?thesis
      using True by (simp add: signed_take_bit_eq_take_bit_shift take_bit_eq_mod)
  next
    case False
    have "(?u + 2 ^ 31) mod 2 ^ 32 = ?u + 2 ^ 31"
      using False b by (intro mod_pos_pos_trivial) simp_all
    then show ?thesis
      using False by (simp add: signed_take_bit_eq_take_bit_shift take_bit_eq_mod)
  qed
  finally show ?thesis using assms by (auto simp: from_bytes_def Let_def)
qed

lemma to_from_signed:
  assumes "- (2 ^ 31) \<le> x" "x < 2 ^ 31"
  shows "from_bytes (le_bytes 4 x) True = x"
proof (cases "x < 0")
  case True
  have "x mod 2 ^ 32 = (x + 2 ^ 32) mod 2 ^ 32" by simp
  also have "\<dots> = x + 2 ^ 32"
    using True assms by (intro mod_pos_pos_trivial) simp_all
  finally show ?thesis
    using True assms
    by (simp add: from_bytes_def from_bytes_unsigned_le_bytes length_le_bytes le_bytes_nonempty)
next
  case False
  then have "x mod 2 ^ 32 = x"
    using assms by (intro mod_pos_pos_trivial) simp_all
  then show ?thesis
    using False assms
    by (simp add: from_bytes_def from_bytes_unsigned_le_bytes length_le_bytes le_bytes_nonempty)
qed

lemma to_from_unsigned:
  assumes "0 \<le> x" "x < 2 ^ 32"
  shows "from_bytes (le_bytes 4 x) False = x"
  using assms by (simp add: from_bytes_def from_bytes_unsigned_le_bytes)

lemma slice_0: "0 \<le> k \<Longrightarrow> slice_py xs 0 k = take (nat k) xs"
  by (simp add: slice_py_def slice_index_def Let_def min_def)

lemma slice_4_8: "slice_py xs 4 8 = take 4 (drop 4 xs)"
  by (auto simp: slice_py_def slice_index_def Let_def min_def)

lemma slice_8_last: "slice_py xs 8 (- 1) = take (length xs - 9) (drop 8 xs)"
  by (auto simp: slice_py_def slice_index_def Let_def min_def max_def nat_diff_distrib)

lemma find_nonneg: "- 1 \<le> bytes_find d z"
  by (induction d) (auto simp: Let_def)

lemma find_none: "bytes_find d z = - 1 \<longleftrightarrow> z \<notin> set d"
proof (induction d)
  case Nil show ?case by simp
next
  case (Cons b d)
  have "bytes_find d z + 1 \<noteq> - 1" using find_nonneg [of d z] by linarith
  then show ?case using Cons by (auto simp: Let_def)
qed

lemma find_takeWhile: "z \<in> set d \<Longrightarrow> take (nat (bytes_find d z)) d = takeWhile (\<lambda>b. b \<noteq> z) d"
proof (induction d)
  case Nil then show ?case by simp
next
  case (Cons b d)
  show ?case
  proof (cases "b = z")
    case True then show ?thesis by simp
  next
    case False
    with Cons.prems have zin: "z \<in> set d" by simp
    then have "bytes_find d z \<noteq> - 1" by (simp add: find_none)
    with find_nonneg [of d z] have "0 \<le> bytes_find d z" by linarith
    then have "nat (bytes_find d z + 1) = Suc (nat (bytes_find d z))" by simp
    with False zin Cons.IH \<open>bytes_find d z \<noteq> - 1\<close> show ?thesis by (simp add: Let_def)
  qed
qed

lemma recv_packet_data: "recv_packet c = (Inr p, c') \<Longrightarrow> \<exists>b. data p = Bytes b \<and> length b \<le> 1446"
  by (auto simp: recv_packet_def Let_def slice_8_last split: prod.splits if_splits)

section \<open>The packet receiver\<close>

text \<open>
  C10. An accepted frame body is request id, type, payload and one pad byte: the receiver
  returns the first four bytes read as a little-endian two's-complement 32-bit number, the
  next four likewise, and the payload without the pad byte, whatever the pad byte holds.
\<close>

theorem recv_packet_decodes_fields:
  assumes "client_read 4 c = (nb, c1)" and "length nb = 4"
    and "from_bytes nb False = int (length body)"
    and "client_read (length body) c1 = (body, c2)"
    and "body = rid @ ty @ payload @ [pad]" and "length rid = 4" and "length ty = 4"
    and "length body \<le> 1455"
  shows "recv_packet c =
           (Inr \<lparr>request_id = sint (word_rcat (rev rid) :: 32 word),
                 type = sint (word_rcat (rev ty) :: 32 word),
                 data = Bytes payload\<rparr>, c2)"
proof -
  have len: "length body = length payload + 9" using assms by simp
  have a: "slice_py body 0 4 = rid" using assms by (simp add: slice_0)
  have b: "slice_py body 4 8 = ty" using assms by (simp add: slice_4_8)
  have d: "slice_py body 8 (- 1) = payload" using assms by (simp add: slice_8_last)
  have n: "nat (from_bytes nb False) = length body" using assms(3) by simp
  have ge: "\<not> length body < 9" using len by simp
  show ?thesis
    unfolding recv_packet_def Let_def assms(1) prod.case n assms(4)
    using assms(2,8) ge
    by (simp add: a b d from_bytes_signed_4 [OF assms(6)] from_bytes_signed_4 [OF assms(7)])
qed

theorem recv_packet_decodes_fields_witness:
  "recv_packet (new_client [[10, 0, 0, 0, 255, 255, 255, 255, 0, 0, 0, 0, 65, 7]]) =
     (Inr \<lparr>request_id = - 1, type = 0, data = Bytes [65]\<rparr>, new_client [])"
proof -
  have "recv_packet (new_client [[10, 0, 0, 0, 255, 255, 255, 255, 0, 0, 0, 0, 65, 7]]) =
     (Inr \<lparr>request_id = sint (word_rcat (rev [255, 255, 255, 255 :: byte]) :: 32 word),
           type = sint (word_rcat (rev [0, 0, 0, 0 :: byte]) :: 32 word),
           data = Bytes [65]\<rparr>, new_client [])"
    by (rule recv_packet_decodes_fields
          [where nb = "[10, 0, 0, 0]"
             and ?c1.0 = "new_client [[255, 255, 255, 255, 0, 0, 0, 0, 65, 7]]"
             and body = "[255, 255, 255, 255, 0, 0, 0, 0, 65, 7]" and pad = 7])
       (simp_all add: client_read_def new_client_def from_bytes_def)
  then show ?thesis by (simp add: word_rcat_def)
qed

text \<open>
  C9. The text receiver needs a null byte in the payload: it returns the bytes before the
  first one, and raises "data is not zero-terminated" when the payload has none.
\<close>

theorem recv_text_packet_terminator:
  assumes "recv_packet c = (Inr p, c1)" and "data p = Bytes d"
  shows "recv_text_packet c =
           (if 0 \<in> set d
            then Inr \<lparr>request_id = request_id p, type = type p,
                      data = Bytes (takeWhile (\<lambda>b. b \<noteq> 0) d)\<rparr>
            else Inl NotZeroTerminated, c1)"
proof (cases "0 \<in> set d")
  case True
  then have "bytes_find d 0 \<noteq> - 1" by (simp add: find_none)
  moreover from this have "0 \<le> bytes_find d 0" using find_nonneg [of d 0] by linarith
  ultimately show ?thesis
    using assms True
    by (simp add: recv_text_packet_def must_bytes_def Let_def slice_0 find_takeWhile)
next
  case False
  then have "bytes_find d 0 = - 1" by (simp add: find_none)
  then show ?thesis
    using assms False by (simp add: recv_text_packet_def must_bytes_def Let_def)
qed

theorem recv_text_packet_terminator_witness:
  "recv_text_packet (new_client [[12, 0, 0, 0, 1, 0, 0, 0, 0, 0, 0, 0, 65, 0, 66, 0]]) =
     (Inr \<lparr>request_id = 1, type = 0, data = Bytes [65]\<rparr>, new_client []) \<and>
   recv_text_packet (new_client [[11, 0, 0, 0, 1, 0, 0, 0, 0, 0, 0, 0, 65, 66, 0]]) =
     (Inl NotZeroTerminated, new_client [])"
proof -
  have p1: "recv_packet (new_client [[12, 0, 0, 0, 1, 0, 0, 0, 0, 0, 0, 0, 65, 0, 66, 0]]) =
      (Inr \<lparr>request_id = 1, type = 0, data = Bytes [65, 0, 66]\<rparr>, new_client [])"
    by (simp add: recv_packet_def client_read_def new_client_def from_bytes_def
          slice_py_def slice_index_def)
  have p2: "recv_packet (new_client [[11, 0, 0, 0, 1, 0, 0, 0, 0, 0, 0, 0, 65, 66, 0]]) =
      (Inr \<lparr>request_id = 1, type = 0, data = Bytes [65, 66]\<rparr>, new_client [])"
    by (simp add: recv_packet_def client_read_def new_client_def from_bytes_def
          slice_py_def slice_index_def)
  show ?thesis
    using recv_text_packet_terminator [OF p1] recv_text_packet_terminator [OF p2] by simp
qed

text \<open>
  C5. A declared length below 9 raises "too small packet" and one above 1455 "too big
  packet"; a declared length from 9 to 1455 is accepted when the second read returns that
  many bytes and raises "incorrect packet" when it returns another number; a first read
  short of four bytes raises "incorrect packet" as well. The witness runs the lengths
  8, 1456, 9 and 1455, a body cut short and a stream that ends inside the length.
\<close>

theorem recv_packet_framing:
  assumes "client_read 4 c = (nb, c1)"
  shows "(length nb \<noteq> 4 \<longrightarrow> recv_packet c = (Inl (IncorrectLength (length nb)), c1)) \<and>
         (length nb = 4 \<and> from_bytes nb False = int n \<and> n < 9 \<longrightarrow>
            recv_packet c = (Inl (TooSmallPacket n), c1)) \<and>
         (length nb = 4 \<and> from_bytes nb False = int n \<and> 1455 < n \<longrightarrow>
            recv_packet c = (Inl (TooBigPacket n), c1)) \<and>
         (length nb = 4 \<and> from_bytes nb False = int n \<and> 9 \<le> n \<and> n \<le> 1455 \<and>
          client_read n c1 = (body, c2) \<longrightarrow>
            (length body = n \<longrightarrow> (\<exists>p. recv_packet c = (Inr p, c2))) \<and>
            (length body \<noteq> n \<longrightarrow> recv_packet c = (Inl (IncorrectPacket n (length body)), c2)))"
  using assms by (auto simp: recv_packet_def Let_def)

theorem recv_packet_framing_witness:
  "recv_packet (new_client [[8, 0, 0, 0, 1, 0, 0, 0, 0, 0, 0, 0]]) =
     (Inl (TooSmallPacket 8), new_client [[1, 0, 0, 0, 0, 0, 0, 0]]) \<and>
   recv_packet (new_client [[176, 5, 0, 0, 1, 0, 0, 0, 0, 0, 0, 0]]) =
     (Inl (TooBigPacket 1456), new_client [[1, 0, 0, 0, 0, 0, 0, 0]]) \<and>
   (\<exists>p. recv_packet (new_client [[9, 0, 0, 0, 1, 0, 0, 0, 0, 0, 0, 0, 0]]) = (Inr p, new_client [])) \<and>
   (\<exists>p. recv_packet (new_client [[175, 5, 0, 0], replicate 1455 0]) = (Inr p, new_client [])) \<and>
   recv_packet (new_client [[9, 0, 0, 0, 1, 0, 0, 0, 0, 0]]) =
     (Inl (IncorrectPacket 9 6), new_client []) \<and>
   recv_packet (new_client [[9, 0]]) = (Inl (IncorrectLength 2), new_client [])"
proof -
  have r: "client_read 4 (new_client (([a, b, c, d] @ rest) # cs)) =
             ([a, b, c, d], new_client (if rest = [] then cs else rest # cs))" for a b c d rest cs
    by (simp add: client_read_def new_client_def)
  have f: "from_bytes [8, 0, 0, 0] False = int 8" "from_bytes [176, 5, 0, 0] False = int 1456"
    "from_bytes [9, 0, 0, 0] False = int 9" "from_bytes [175, 5, 0, 0] False = int 1455"
    by (simp_all add: from_bytes_def)
  have "recv_packet (new_client [[8, 0, 0, 0, 1, 0, 0, 0, 0, 0, 0, 0]]) =
     (Inl (TooSmallPacket 8), new_client [[1, 0, 0, 0, 0, 0, 0, 0]])"
    using recv_packet_framing [OF r [of 8 0 0 0 "[1, 0, 0, 0, 0, 0, 0, 0]" "[]"], of 8] f
    by simp
  moreover have "recv_packet (new_client [[176, 5, 0, 0, 1, 0, 0, 0, 0, 0, 0, 0]]) =
     (Inl (TooBigPacket 1456), new_client [[1, 0, 0, 0, 0, 0, 0, 0]])"
    using recv_packet_framing [OF r [of 176 5 0 0 "[1, 0, 0, 0, 0, 0, 0, 0]" "[]"], of 1456] f
    by simp
  moreover have "\<exists>p. recv_packet (new_client [[9, 0, 0, 0, 1, 0, 0, 0, 0, 0, 0, 0, 0]]) = (Inr p, new_client [])"
    using recv_packet_framing [OF r [of 9 0 0 0 "[1, 0, 0, 0, 0, 0, 0, 0, 0]" "[]"], of 9
        "[1, 0, 0, 0, 0, 0, 0, 0, 0]" "new_client []"] f
    by (simp add: client_read_def new_client_def)
  moreover have "\<exists>p. recv_packet (new_client [[175, 5, 0, 0], replicate 1455 0]) = (Inr p, new_client [])"
    using recv_packet_framing [OF r [of 175 5 0 0 "[]" "[replicate 1455 0]"], of 1455
        "replicate 1455 0" "new_client []"] f
    by (simp add: client_read_def new_client_def)
  moreover have "recv_packet (new_client [[9, 0, 0, 0, 1, 0, 0, 0, 0, 0]]) =
     (Inl (IncorrectPacket 9 6), new_client [])"
    using recv_packet_framing [OF r [of 9 0 0 0 "[1, 0, 0, 0, 0, 0]" "[]"], of 9
        "[1, 0, 0, 0, 0, 0]" "new_client []"] f
    by (simp add: client_read_def new_client_def)
  moreover have "recv_packet (new_client [[9, 0]]) = (Inl (IncorrectLength 2), new_client [])"
    using recv_packet_framing [of "new_client [[9, 0]]" "[9, 0]" "new_client []"]
    by (simp add: client_read_def new_client_def)
  ultimately show ?thesis by blast
qed

section \<open>The loop of execute\<close>

lemma length_slice_py: "length (slice_py xs a b) \<le> length xs"
  by (simp add: slice_py_def Let_def)

lemma recv_text_packet_data:
  assumes "recv_text_packet c = (Inr p, c')"
  shows "\<exists>b. data p = Bytes b \<and> length b \<le> 1446"
proof -
  from assms obtain q where q: "recv_packet c = (Inr q, c')"
    by (auto simp: recv_text_packet_def Let_def split: prod.splits sum.splits if_splits)
  from recv_packet_data [OF q] obtain d where d: "data q = Bytes d" "length d \<le> 1446" by blast
  from assms q d have "data p = Bytes (slice_py d 0 (bytes_find d 0))"
    by (auto simp: recv_text_packet_def must_bytes_def Let_def split: if_splits)
  moreover have "length (slice_py d 0 (bytes_find d 0)) \<le> length d" by (rule length_slice_py)
  ultimately show ?thesis using d(2) by auto
qed

text \<open>
  C8. In a pass of the loop of \<open>execute\<close> that has received a text packet, a request id
  other than the one sent raises "Invalid request ID" with the accumulated result as it
  was; a matching id with a type other than 0 raises "Invalid response type", again with
  the result untouched; the payload is appended only when id and type both pass. The
  loop hands either error on.
\<close>

theorem execute_body_checks:
  assumes "recv_text_packet c = (Inr p, c1)"
  shows "(request_id p \<noteq> i \<longrightarrow>
            execute_body i result c = (Inl (InvalidRequestID i (request_id p)), result, c1) \<and>
            execute_loop i result c = (Inl (InvalidRequestID i (request_id p)), c1)) \<and>
         (request_id p = i \<and> type p \<noteq> 0 \<longrightarrow>
            execute_body i result c = (Inl (InvalidResponseType 0 (type p)), result, c1) \<and>
            execute_loop i result c = (Inl (InvalidResponseType 0 (type p)), c1)) \<and>
         (request_id p = i \<and> type p = 0 \<longrightarrow>
            (\<exists>payload. data p = Bytes payload \<and>
               execute_body i result c = (Inr (length payload < 4096), result @ payload, c1)))"
proof -
  obtain b where "data p = Bytes b" using recv_text_packet_data [OF assms] by blast
  then have body: "execute_body i result c =
      (if request_id p \<noteq> i then (Inl (InvalidRequestID i (request_id p)), result, c1)
       else if type p \<noteq> 0 then (Inl (InvalidResponseType 0 (type p)), result, c1)
       else (Inr (length b < 4096), result @ b, c1))"
    using assms by (simp add: execute_body_def must_bytes_def)
  show ?thesis
    using \<open>data p = Bytes b\<close> by (subst (1 2) execute_loop.simps) (simp add: body)
qed


lemma execute_body_breaks:
  assumes "execute_body i result c = (Inr brk, result', c')"
  shows "brk"
proof -
  from assms obtain p where p: "recv_text_packet c = (Inr p, c')"
    by (auto simp: execute_body_def split: prod.splits sum.splits if_splits)
  from recv_text_packet_data [OF p] obtain b where b: "data p = Bytes b" "length b \<le> 1446"
    by blast
  from assms p b have "brk = (length b < 4096)"
    by (auto simp: execute_body_def must_bytes_def split: if_splits)
  with b(2) show ?thesis by simp
qed

lemma execute_loop_once:
  "execute_loop i result c =
     (case execute_body i result c of
        (Inl e, result', c1) \<Rightarrow> (Inl e, c1)
      | (Inr brk, result', c1) \<Rightarrow> (Inr result', c1))"
proof -
  obtain r result' c1 where eb: "execute_body i result c = (r, result', c1)"
    by (cases "execute_body i result c") auto
  show ?thesis
  proof (cases r)
    case (Inl e)
    with eb show ?thesis by (subst execute_loop.simps) simp
  next
    case (Inr brk)
    with eb execute_body_breaks [of i result c brk result' c1] have brk by simp
    with eb Inr show ?thesis by (subst execute_loop.simps) simp
  qed
qed

text \<open>
  C2. A packet the receiver accepts carries at most 1446 payload bytes, so a pass of the
  loop that does not raise always reaches \<open>break\<close>: the loop is its body run once, and
  an \<open>execute\<close> that returns has sent its request and read exactly one text packet,
  whose payload it returns.
\<close>

theorem execute_reads_one_packet:
  "(recv_packet c = (Inr p, c') \<longrightarrow> (\<exists>b. data p = Bytes b \<and> length b \<le> 1446)) \<and>
   (execute_body i result c = (Inr brk, result', c') \<longrightarrow> brk) \<and>
   execute_loop i result c =
     (case execute_body i result c of
        (Inl e, result', c1) \<Rightarrow> (Inl e, c1)
      | (Inr brk, result', c1) \<Rightarrow> (Inr result', c1)) \<and>
   (execute command c = (Inr out, c') \<longrightarrow>
      (\<exists>c1 q. send_text_packet \<lparr>request_id = priv_i c, type = 2, data = Str command\<rparr>
                 (c\<lparr>priv_i := priv_i c + 1\<rparr>) = (Inr (), c1) \<and>
              recv_text_packet c1 = (Inr q, c') \<and> data q = Bytes out))"
proof -
  have "\<exists>c1 q. send_text_packet \<lparr>request_id = priv_i c, type = 2, data = Str command\<rparr>
                 (c\<lparr>priv_i := priv_i c + 1\<rparr>) = (Inr (), c1) \<and>
              recv_text_packet c1 = (Inr q, c') \<and> data q = Bytes out"
    if ex: "execute command c = (Inr out, c')"
  proof -
    from ex obtain c1 where
      s: "send_text_packet \<lparr>request_id = priv_i c, type = 2, data = Str command\<rparr>
            (c\<lparr>priv_i := priv_i c + 1\<rparr>) = (Inr (), c1)"
      and l: "execute_loop (priv_i c) [] c1 = (Inr out, c')"
      by (auto simp: execute_def Let_def split: prod.splits sum.splits)
    from l obtain brk where eb: "execute_body (priv_i c) [] c1 = (Inr brk, out, c')"
      by (auto simp: execute_loop_once split: prod.splits sum.splits)
    then obtain q where q: "recv_text_packet c1 = (Inr q, c')"
      by (auto simp: execute_body_def split: prod.splits sum.splits if_splits)
    from recv_text_packet_data [OF q] obtain b where b: "data q = Bytes b" by blast
    with eb q have "out = b"
      by (auto simp: execute_body_def must_bytes_def split: if_splits)
    with s q b show ?thesis by blast
  qed
  then show ?thesis
    using recv_packet_data [of c p c'] execute_body_breaks [of i result c brk result' c']
      execute_loop_once [of i result c]
    by blast
qed


text \<open>Unfolding sets for running the receiver and the sender on concrete bytes.\<close>

lemmas recv_defs = recv_text_packet_def recv_packet_def client_read_def new_client_def
  from_bytes_def slice_py_def slice_index_def must_bytes_def

lemma le_bytes_4:
  "le_bytes 4 x = [word_of_int x, word_of_int (x div 256), word_of_int (x div 256 div 256),
                   word_of_int (x div 256 div 256 div 256)]"
  by (simp add: numeral_eq_Suc)

lemmas send_defs = send_text_packet_def send_packet_def build_packet_def must_str_def
  to_bytes_def encode_char_def new_client_def le_bytes_4

theorem execute_body_checks_witness:
  "execute_body 1 [88] (new_client [[11, 0, 0, 0, 5, 0, 0, 0, 0, 0, 0, 0, 65, 0, 0]]) =
     (Inl (InvalidRequestID 1 5), [88], new_client []) \<and>
   execute_loop 1 [88] (new_client [[11, 0, 0, 0, 5, 0, 0, 0, 0, 0, 0, 0, 65, 0, 0]]) =
     (Inl (InvalidRequestID 1 5), new_client []) \<and>
   execute_body 5 [88] (new_client [[11, 0, 0, 0, 5, 0, 0, 0, 2, 0, 0, 0, 65, 0, 0]]) =
     (Inl (InvalidResponseType 0 2), [88], new_client []) \<and>
   execute_body 5 [88] (new_client [[11, 0, 0, 0, 5, 0, 0, 0, 0, 0, 0, 0, 65, 0, 0]]) =
     (Inr True, [88, 65], new_client [])"
proof -
  have p0: "recv_text_packet (new_client [[11, 0, 0, 0, 5, 0, 0, 0, 0, 0, 0, 0, 65, 0, 0]]) =
      (Inr \<lparr>request_id = 5, type = 0, data = Bytes [65]\<rparr>, new_client [])"
    by (simp add: recv_defs)
  have p2: "recv_text_packet (new_client [[11, 0, 0, 0, 5, 0, 0, 0, 2, 0, 0, 0, 65, 0, 0]]) =
      (Inr \<lparr>request_id = 5, type = 2, data = Bytes [65]\<rparr>, new_client [])"
    by (simp add: recv_defs)
  show ?thesis
    using execute_body_checks [OF p0, of 1 "[88]"] execute_body_checks [OF p2, of 5 "[88]"]
      execute_body_checks [OF p0, of 5 "[88]"]
    by simp
qed

theorem execute_reads_one_packet_witness:
  "recv_packet (new_client [[11, 0, 0, 0, 0, 0, 0, 0, 0, 0, 0, 0, 65, 0, 0]]) =
     (Inr \<lparr>request_id = 0, type = 0, data = Bytes [65, 0]\<rparr>, new_client []) \<and>
   execute_body 0 [] (new_client [[11, 0, 0, 0, 0, 0, 0, 0, 0, 0, 0, 0, 65, 0, 0]]) =
     (Inr True, [65], new_client []) \<and>
   execute_loop 0 [] (new_client [[11, 0, 0, 0, 0, 0, 0, 0, 0, 0, 0, 0, 65, 0, 0]]) =
     (Inr [65], new_client []) \<and>
   execute [104] (new_client [[11, 0, 0, 0, 0, 0, 0, 0, 0, 0, 0, 0, 65, 0, 0]]) =
     (Inr [65], \<lparr>priv_i = 1, priv_reader = [],
                  priv_writer = [11, 0, 0, 0, 0, 0, 0, 0, 2, 0, 0, 0, 104, 0, 0]\<rparr>) \<and>
   (\<exists>c1 q. send_text_packet \<lparr>request_id = 0, type = 2, data = Str [104]\<rparr>
              (new_client [[11, 0, 0, 0, 0, 0, 0, 0, 0, 0, 0, 0, 65, 0, 0]]\<lparr>priv_i := 1\<rparr>) =
              (Inr (), c1) \<and>
            recv_text_packet c1 =
              (Inr q, \<lparr>priv_i = 1, priv_reader = [],
                       priv_writer = [11, 0, 0, 0, 0, 0, 0, 0, 2, 0, 0, 0, 104, 0, 0]\<rparr>) \<and>
            data q = Bytes [65])"
proof -
  let ?c = "new_client [[11, 0, 0, 0, 0, 0, 0, 0, 0, 0, 0, 0, 65, 0, 0 :: byte]]"
  let ?c1 = "\<lparr>priv_i = 1, priv_reader = [[11, 0, 0, 0, 0, 0, 0, 0, 0, 0, 0, 0, 65, 0, 0 :: byte]],
              priv_writer = [11, 0, 0, 0, 0, 0, 0, 0, 2, 0, 0, 0, 104, 0, 0 :: byte]\<rparr>"
  let ?c' = "\<lparr>priv_i = 1, priv_reader = [],
              priv_writer = [11, 0, 0, 0, 0, 0, 0, 0, 2, 0, 0, 0, 104, 0, 0 :: byte]\<rparr>"
  let ?p = "\<lparr>request_id = 0, type = 0, data = Bytes [65, 0 :: byte]\<rparr>"
  have rp: "recv_packet ?c = (Inr ?p, new_client [])"
    by (simp add: recv_defs)
  have eb: "execute_body 0 [] ?c = (Inr True, [65], new_client [])"
    by (simp add: execute_body_def recv_defs)
  have eb1: "execute_body 0 [] ?c1 = (Inr True, [65], ?c')"
    by (simp add: execute_body_def recv_defs)
  have sd: "send_text_packet \<lparr>request_id = 0, type = 2, data = Str [104]\<rparr> (?c\<lparr>priv_i := 1\<rparr>) =
              (Inr (), ?c1)"
    by (simp add: send_defs)
  have el: "execute_loop 0 [] ?c = (Inr [65], new_client [])"
    using execute_reads_one_packet [of ?c ?p "new_client []" 0 "[]" True "[65]"] eb by simp
  have el1: "execute_loop 0 [] ?c1 = (Inr [65], ?c')"
    using execute_reads_one_packet [of ?c1 ?p ?c' 0 "[]" True "[65]"] eb1 by simp
  have ex: "execute [104] ?c = (Inr [65], ?c')"
    using sd el1 by (simp add: execute_def new_client_def)
  have "\<exists>c1 q. send_text_packet \<lparr>request_id = priv_i ?c, type = 2, data = Str [104]\<rparr>
                 (?c\<lparr>priv_i := priv_i ?c + 1\<rparr>) = (Inr (), c1) \<and>
              recv_text_packet c1 = (Inr q, ?c') \<and> data q = Bytes [65]"
    using execute_reads_one_packet [of ?c _ ?c' _ _ _ _ "[104]" "[65]"] ex by blast
  then show ?thesis
    using rp eb el ex by (simp add: new_client_def)
qed

section \<open>The session: counter, sending and login\<close>

lemma client_read_keeps:
  "client_read n c = (bs, c') \<Longrightarrow> priv_i c' = priv_i c \<and> priv_writer c' = priv_writer c"
  by (auto simp: client_read_def split: prod.splits)

lemma recv_packet_keeps:
  "recv_packet c = (r, c') \<Longrightarrow> priv_i c' = priv_i c \<and> priv_writer c' = priv_writer c"
  by (auto simp: recv_packet_def Let_def split: prod.splits if_splits dest!: client_read_keeps)

lemma recv_text_packet_keeps:
  "recv_text_packet c = (r, c') \<Longrightarrow> priv_i c' = priv_i c \<and> priv_writer c' = priv_writer c"
  by (auto simp: recv_text_packet_def Let_def split: prod.splits sum.splits if_splits
           dest!: recv_packet_keeps)

lemma execute_body_keeps:
  "execute_body i result c = (r, result', c') \<Longrightarrow>
   priv_i c' = priv_i c \<and> priv_writer c' = priv_writer c"
  by (auto simp: execute_body_def split: prod.splits sum.splits if_splits
           dest!: recv_text_packet_keeps)

lemma execute_loop_keeps:
  "execute_loop i result c = (r, c') \<Longrightarrow> priv_i c' = priv_i c \<and> priv_writer c' = priv_writer c"
proof (induction i result c rule: execute_loop.induct)
  case (1 i result c)
  obtain x result' c1 where eb: "execute_body i result c = (x, result', c1)"
    by (cases "execute_body i result c") auto
  note k = execute_body_keeps [OF eb]
  show ?case
  proof (cases x)
    case (Inl e)
    with eb "1.prems" k show ?thesis by (subst (asm) execute_loop.simps) simp
  next
    case (Inr brk)
    show ?thesis
    proof (cases brk)
      case True
      with Inr eb "1.prems" k show ?thesis by (subst (asm) execute_loop.simps) simp
    next
      case False
      with Inr eb "1.prems" have "execute_loop i result' c1 = (r, c')"
        by (subst (asm) execute_loop.simps) simp
      from "1.IH" [OF eb [symmetric] Inr refl False this] k show ?thesis by simp
    qed
  qed
qed

lemma send_packet_keeps:
  "send_packet p c = (r, c') \<Longrightarrow> priv_i c' = priv_i c \<and> priv_reader c' = priv_reader c"
  by (auto simp: send_packet_def split: sum.splits)

lemma send_text_packet_keeps:
  "send_text_packet p c = (r, c') \<Longrightarrow> priv_i c' = priv_i c \<and> priv_reader c' = priv_reader c"
  by (auto simp: send_text_packet_def split: sum.splits dest: send_packet_keeps)

lemma login_priv_i: "priv_i (snd (login pw c)) = priv_i c + 1"
  by (auto simp: login_def Let_def split: prod.splits sum.splits
           dest!: send_text_packet_keeps recv_packet_keeps)

lemma execute_priv_i: "priv_i (snd (execute cmd c)) = priv_i c + 1"
proof -
  obtain r c' where e: "execute cmd c = (r, c')" by (cases "execute cmd c") auto
  then have "priv_i c' = priv_i c + 1"
    by (auto simp: execute_def Let_def split: prod.splits sum.splits
             dest!: send_text_packet_keeps execute_loop_keeps)
  with e show ?thesis by simp
qed


lemma to_bytes_signed_ok:
  "- (2 ^ 31) \<le> x \<Longrightarrow> x < 2 ^ 31 \<Longrightarrow> to_bytes x 4 True = Inr (le_bytes 4 x)"
  by (simp add: to_bytes_def)

lemma build_packet_too_large:
  "4096 < length d \<Longrightarrow>
   build_packet \<lparr>request_id = i, type = t, data = Bytes d\<rparr> = Inl (TooLargeData (length d))"
  by (simp add: build_packet_def)

lemma build_packet_ok:
  assumes "length d \<le> 4096" and "- (2 ^ 31) \<le> i" and "i < 2 ^ 31"
    and "- (2 ^ 31) \<le> t" and "t < 2 ^ 31"
  shows "build_packet \<lparr>request_id = i, type = t, data = Bytes d\<rparr> =
           Inr (le_bytes 4 i @ le_bytes 4 t @ d @ [0])"
  using assms by (simp add: build_packet_def to_bytes_signed_ok)

lemma send_packet_ok:
  assumes "length d \<le> 4096" and "- (2 ^ 31) \<le> i" and "i < 2 ^ 31"
    and "- (2 ^ 31) \<le> t" and "t < 2 ^ 31"
  shows "send_packet \<lparr>request_id = i, type = t, data = Bytes d\<rparr> c =
           (Inr (), c\<lparr>priv_writer := priv_writer c @ le_bytes 4 (int (length d + 9)) @
                                       le_bytes 4 i @ le_bytes 4 t @ d @ [0]\<rparr>)"
proof -
  have "to_bytes (int (length d + 9)) 4 False = Inr (le_bytes 4 (int (length d + 9)))"
    using assms(1) by (simp add: to_bytes_def)
  then show ?thesis
    by (simp add: send_packet_def build_packet_ok [OF assms] length_le_bytes add.commute)
qed

lemma send_text_packet_ok:
  assumes "encode s = Inr b" and "length b \<le> 4095" and "- (2 ^ 31) \<le> i" and "i < 2 ^ 31"
    and "- (2 ^ 31) \<le> t" and "t < 2 ^ 31"
  shows "send_text_packet \<lparr>request_id = i, type = t, data = Str s\<rparr> c =
           (Inr (), c\<lparr>priv_writer := priv_writer c @ le_bytes 4 (int (length b + 10)) @
                                       le_bytes 4 i @ le_bytes 4 t @ b @ [0, 0]\<rparr>)"
proof -
  have "length (b @ [0]) \<le> 4096" using assms(2) by simp
  from send_packet_ok [OF this assms(3-6), of c] assms(1) show ?thesis
    by (simp add: send_text_packet_def must_str_def add.commute)
qed

lemma send_text_packet_too_large:
  assumes "encode s = Inr b" and "4096 \<le> length b"
  shows "send_text_packet \<lparr>request_id = i, type = t, data = Str s\<rparr> c =
           (Inl (TooLargeData (length b + 1)), c)"
  using assms by (simp add: send_text_packet_def must_str_def send_packet_def build_packet_def)

lemma login_writer:
  "send_text_packet \<lparr>request_id = priv_i c, type = 3, data = Str pw\<rparr>
     (c\<lparr>priv_i := priv_i c + 1\<rparr>) = (r, c1) \<Longrightarrow>
   priv_writer (snd (login pw c)) = priv_writer c1"
  by (auto simp: login_def Let_def split: prod.splits sum.splits dest!: recv_packet_keeps)

lemma execute_writer:
  "send_text_packet \<lparr>request_id = priv_i c, type = 2, data = Str cmd\<rparr>
     (c\<lparr>priv_i := priv_i c + 1\<rparr>) = (r, c1) \<Longrightarrow>
   priv_writer (snd (execute cmd c)) = priv_writer c1"
proof -
  assume s: "send_text_packet \<lparr>request_id = priv_i c, type = 2, data = Str cmd\<rparr>
     (c\<lparr>priv_i := priv_i c + 1\<rparr>) = (r, c1)"
  show ?thesis
  proof (cases r)
    case (Inl e)
    with s show ?thesis by (simp add: execute_def Let_def)
  next
    case (Inr u)
    obtain x c2 where l: "execute_loop (priv_i c) [] c1 = (x, c2)"
      by (cases "execute_loop (priv_i c) [] c1") auto
    with s Inr execute_loop_keeps [OF l] show ?thesis by (simp add: execute_def Let_def)
  qed
qed

text \<open>
  C6. The client holds one counter, 0 in a new client. \<open>login\<close> and \<open>execute\<close> each
  leave it one higher than they found it, whether they return or raise, and neither
  resets it. The request they put on the wire carries the value the counter had when
  they were called.
\<close>

theorem request_id_counter:
  "priv_i (new_client chunks) = 0 \<and>
   priv_i (snd (login pw c)) = priv_i c + 1 \<and>
   priv_i (snd (execute cmd c)) = priv_i c + 1 \<and>
   (encode pw = Inr b \<and> length b \<le> 4095 \<and> - (2 ^ 31) \<le> priv_i c \<and> priv_i c < 2 ^ 31 \<longrightarrow>
      priv_writer (snd (login pw c)) =
        priv_writer c @ le_bytes 4 (int (length b + 10)) @ le_bytes 4 (priv_i c) @
        le_bytes 4 3 @ b @ [0, 0]) \<and>
   (encode cmd = Inr b' \<and> length b' \<le> 4095 \<and> - (2 ^ 31) \<le> priv_i c \<and> priv_i c < 2 ^ 31 \<longrightarrow>
      priv_writer (snd (execute cmd c)) =
        priv_writer c @ le_bytes 4 (int (length b' + 10)) @ le_bytes 4 (priv_i c) @
        le_bytes 4 2 @ b' @ [0, 0])"
proof -
  have "priv_writer (snd (login pw c)) =
        priv_writer c @ le_bytes 4 (int (length b + 10)) @ le_bytes 4 (priv_i c) @
        le_bytes 4 3 @ b @ [0, 0]"
    if "encode pw = Inr b" "length b \<le> 4095" "- (2 ^ 31) \<le> priv_i c" "priv_i c < 2 ^ 31"
    using login_writer [OF send_text_packet_ok [OF that, of 3 "c\<lparr>priv_i := priv_i c + 1\<rparr>"]]
    by simp
  moreover have "priv_writer (snd (execute cmd c)) =
        priv_writer c @ le_bytes 4 (int (length b' + 10)) @ le_bytes 4 (priv_i c) @
        le_bytes 4 2 @ b' @ [0, 0]"
    if "encode cmd = Inr b'" "length b' \<le> 4095" "- (2 ^ 31) \<le> priv_i c" "priv_i c < 2 ^ 31"
    using execute_writer [OF send_text_packet_ok [OF that, of 2 "c\<lparr>priv_i := priv_i c + 1\<rparr>"]]
    by simp
  ultimately show ?thesis
    by (simp add: login_priv_i execute_priv_i new_client_def)
qed


theorem request_id_counter_witness:
  "priv_i (snd (login [115] (new_client [[10, 0, 0, 0, 0, 0, 0, 0, 0, 0, 0, 0, 0, 0]]))) = 1 \<and>
   priv_i (snd (execute [104] (snd (login [115] (new_client []))))) = 2 \<and>
   priv_writer (snd (login [115] (new_client [[10, 0, 0, 0, 0, 0, 0, 0, 0, 0, 0, 0, 0, 0]]))) =
     [11, 0, 0, 0, 0, 0, 0, 0, 3, 0, 0, 0, 115, 0, 0] \<and>
   priv_writer (snd (execute [104] (new_client []\<lparr>priv_i := 1\<rparr>))) =
     [11, 0, 0, 0, 1, 0, 0, 0, 2, 0, 0, 0, 104, 0, 0]"
proof -
  let ?c = "new_client [[10, 0, 0, 0, 0, 0, 0, 0, 0, 0, 0, 0, 0, 0 :: byte]]"
  have e: "encode [115] = Inr [115]" "encode [104] = Inr [104]"
    by (simp_all add: encode_char_def)
  have a: "priv_i (snd (login [115] ?c)) = 1"
    and w: "priv_writer (snd (login [115] ?c)) = [11, 0, 0, 0, 0, 0, 0, 0, 3, 0, 0, 0, 115, 0, 0]"
    using request_id_counter [of "[[10, 0, 0, 0, 0, 0, 0, 0, 0, 0, 0, 0, 0, 0]]" "[115]" ?c _ "[115]"] e
    by (simp_all add: new_client_def le_bytes_4)
  have b: "priv_i (snd (execute [104] (snd (login [115] (new_client []))))) = 2"
    using request_id_counter [of "[]" "[115]" "new_client []"]
      request_id_counter [of "[]" _ "snd (login [115] (new_client []))" "[104]"]
    by simp
  have x: "priv_writer (snd (execute [104] (new_client []\<lparr>priv_i := 1\<rparr>))) =
     [11, 0, 0, 0, 1, 0, 0, 0, 2, 0, 0, 0, 104, 0, 0]"
    using request_id_counter [of "[]" _ "new_client []\<lparr>priv_i := 1\<rparr>" "[104]" _ "[104]"] e
    by (simp add: new_client_def le_bytes_4)
  from a b w x show ?thesis by simp
qed

lemma recv_packet_error:
  "recv_packet c = (Inl e, c') \<Longrightarrow> e \<noteq> InvalidRequestID a b"
  by (auto simp: recv_packet_def Let_def split: prod.splits if_splits)

lemma encode_error: "encode s = Inl e \<Longrightarrow> e = UnicodeEncodeError"
proof (induction s)
  case Nil then show ?case by simp
next
  case (Cons cp s)
  then show ?case
    by (auto simp: encode_char_def split: sum.splits if_splits)
qed

lemma send_text_packet_error:
  "send_text_packet \<lparr>request_id = i, type = t, data = Str s\<rparr> c = (Inl e, c') \<Longrightarrow>
   e \<noteq> InvalidRequestID a b"
  by (auto simp: send_text_packet_def send_packet_def build_packet_def must_str_def to_bytes_def
           split: sum.splits if_splits dest: encode_error)

text \<open>
  C4. \<open>login\<close> raises "Invalid request ID" exactly when its request went out, a response
  was decoded and the response's request id is not the id sent; it returns normally (the
  session is authenticated: the client keeps no flag of its own) exactly when the
  decoded response carries the id sent. Neither side mentions the type of the response.
\<close>

theorem login_request_id_check:
  "(fst (login pw c) = Inl (InvalidRequestID (priv_i c) got) \<longleftrightarrow>
      (\<exists>c1 p c2. send_text_packet \<lparr>request_id = priv_i c, type = 3, data = Str pw\<rparr>
                    (c\<lparr>priv_i := priv_i c + 1\<rparr>) = (Inr (), c1) \<and>
                 recv_packet c1 = (Inr p, c2) \<and> request_id p = got \<and> got \<noteq> priv_i c)) \<and>
   (fst (login pw c) = Inr () \<longleftrightarrow>
      (\<exists>c1 p c2. send_text_packet \<lparr>request_id = priv_i c, type = 3, data = Str pw\<rparr>
                    (c\<lparr>priv_i := priv_i c + 1\<rparr>) = (Inr (), c1) \<and>
                 recv_packet c1 = (Inr p, c2) \<and> request_id p = priv_i c))"
proof -
  obtain r c1 where s: "send_text_packet \<lparr>request_id = priv_i c, type = 3, data = Str pw\<rparr>
                    (c\<lparr>priv_i := priv_i c + 1\<rparr>) = (r, c1)"
    by (cases "send_text_packet \<lparr>request_id = priv_i c, type = 3, data = Str pw\<rparr>
                    (c\<lparr>priv_i := priv_i c + 1\<rparr>)") auto
  show ?thesis
  proof (cases r)
    case (Inl e)
    with s send_text_packet_error [of "priv_i c" 3 pw _ e c1 "priv_i c" got]
    show ?thesis by (simp add: login_def Let_def)
  next
    case (Inr u)
    obtain r2 c2 where rp: "recv_packet c1 = (r2, c2)" by (cases "recv_packet c1") auto
    show ?thesis
    proof (cases r2)
      case (Inl e)
      with s Inr rp recv_packet_error [of c1 e c2 "priv_i c" got]
      show ?thesis by (simp add: login_def Let_def)
    next
      case (Inr p)
      with s \<open>r = Inr u\<close> rp show ?thesis by (auto simp: login_def Let_def)
    qed
  qed
qed

theorem login_request_id_check_witness:
  "fst (login [115] (new_client [[10, 0, 0, 0, 255, 255, 255, 255, 2, 0, 0, 0, 0, 0]])) =
     Inl (InvalidRequestID 0 (- 1)) \<and>
   fst (login [115] (new_client [[10, 0, 0, 0, 0, 0, 0, 0, 7, 0, 0, 0, 0, 0]])) = Inr ()"
proof -
  let ?bad = "new_client [[10, 0, 0, 0, 255, 255, 255, 255, 2, 0, 0, 0, 0, 0 :: byte]]"
  let ?good = "new_client [[10, 0, 0, 0, 0, 0, 0, 0, 7, 0, 0, 0, 0, 0 :: byte]]"
  let ?w = "[11, 0, 0, 0, 0, 0, 0, 0, 3, 0, 0, 0, 115, 0, 0 :: byte]"
  have s1: "send_text_packet \<lparr>request_id = priv_i ?bad, type = 3, data = Str [115]\<rparr>
              (?bad\<lparr>priv_i := priv_i ?bad + 1\<rparr>) =
            (Inr (), \<lparr>priv_i = 1,
                      priv_reader = [[10, 0, 0, 0, 255, 255, 255, 255, 2, 0, 0, 0, 0, 0]],
                      priv_writer = ?w\<rparr>)"
    by (simp add: send_defs)
  have r1: "recv_packet \<lparr>priv_i = 1,
                      priv_reader = [[10, 0, 0, 0, 255, 255, 255, 255, 2, 0, 0, 0, 0, 0]],
                      priv_writer = ?w\<rparr> =
            (Inr \<lparr>request_id = - 1, type = 2, data = Bytes [0]\<rparr>,
             \<lparr>priv_i = 1, priv_reader = [], priv_writer = ?w\<rparr>)"
    by (simp add: recv_defs)
  have s2: "send_text_packet \<lparr>request_id = priv_i ?good, type = 3, data = Str [115]\<rparr>
              (?good\<lparr>priv_i := priv_i ?good + 1\<rparr>) =
            (Inr (), \<lparr>priv_i = 1,
                      priv_reader = [[10, 0, 0, 0, 0, 0, 0, 0, 7, 0, 0, 0, 0, 0]],
                      priv_writer = ?w\<rparr>)"
    by (simp add: send_defs)
  have r2: "recv_packet \<lparr>priv_i = 1,
                      priv_reader = [[10, 0, 0, 0, 0, 0, 0, 0, 7, 0, 0, 0, 0, 0]],
                      priv_writer = ?w\<rparr> =
            (Inr \<lparr>request_id = 0, type = 7, data = Bytes [0]\<rparr>,
             \<lparr>priv_i = 1, priv_reader = [], priv_writer = ?w\<rparr>)"
    by (simp add: recv_defs)
  have p0: "priv_i ?bad = 0" "priv_i ?good = 0" by (simp_all add: new_client_def)
  have "fst (login [115] ?bad) = Inl (InvalidRequestID (priv_i ?bad) (- 1))"
    using login_request_id_check [of "[115]" ?bad "- 1"] s1 r1 p0(1) by force
  moreover have "fst (login [115] ?good) = Inr ()"
    using login_request_id_check [of "[115]" ?good] s2 r2 p0(2) by force
  ultimately show ?thesis using p0 by simp
qed

section \<open>The size limit of the encoder\<close>

lemma encode_replicate_ascii: "cp < 128 \<Longrightarrow> encode (replicate n cp) = Inr (replicate n (of_nat cp))"
  by (induction n) (simp_all add: encode_char_def)

text \<open>
  C7. A payload of more than 4096 encoded bytes makes \<open>_build_packet\<close> raise "too large
  data", before the header is built; a payload of 4096 bytes or fewer is encoded (request
  id and type being 32-bit values, which \<open>to_bytes\<close> needs). The text sender appends the
  null terminator before that check: text of at most 4095 encoded bytes is sent, text of
  4096 or more raises with the length counted one higher.
\<close>

theorem payload_size_limit:
  "(4096 < length d \<longrightarrow>
      build_packet \<lparr>request_id = i, type = t, data = Bytes d\<rparr> = Inl (TooLargeData (length d))) \<and>
   (encode s = Inr d \<and> 4096 < length d \<longrightarrow>
      build_packet \<lparr>request_id = i, type = t, data = Str s\<rparr> = Inl (TooLargeData (length d))) \<and>
   (length d \<le> 4096 \<and> - (2 ^ 31) \<le> i \<and> i < 2 ^ 31 \<and> - (2 ^ 31) \<le> t \<and> t < 2 ^ 31 \<longrightarrow>
      build_packet \<lparr>request_id = i, type = t, data = Bytes d\<rparr> =
        Inr (le_bytes 4 i @ le_bytes 4 t @ d @ [0])) \<and>
   (encode s = Inr d \<and> length d \<le> 4096 \<and>
    - (2 ^ 31) \<le> i \<and> i < 2 ^ 31 \<and> - (2 ^ 31) \<le> t \<and> t < 2 ^ 31 \<longrightarrow>
      build_packet \<lparr>request_id = i, type = t, data = Str s\<rparr> =
        Inr (le_bytes 4 i @ le_bytes 4 t @ d @ [0])) \<and>
   (encode s = Inr d \<and> length d \<le> 4095 \<and>
    - (2 ^ 31) \<le> i \<and> i < 2 ^ 31 \<and> - (2 ^ 31) \<le> t \<and> t < 2 ^ 31 \<longrightarrow>
      send_text_packet \<lparr>request_id = i, type = t, data = Str s\<rparr> c =
        (Inr (), c\<lparr>priv_writer := priv_writer c @ le_bytes 4 (int (length d + 10)) @
                                    le_bytes 4 i @ le_bytes 4 t @ d @ [0, 0]\<rparr>)) \<and>
   (encode s = Inr d \<and> 4096 \<le> length d \<longrightarrow>
      send_text_packet \<lparr>request_id = i, type = t, data = Str s\<rparr> c =
        (Inl (TooLargeData (length d + 1)), c))"
  using build_packet_too_large [of d i t] build_packet_ok [of d i t]
    send_text_packet_ok [of s d i t c] send_text_packet_too_large [of s d i t c]
  by (auto simp: build_packet_def to_bytes_signed_ok)

theorem payload_size_limit_witness:
  "build_packet \<lparr>request_id = 1, type = 2, data = Bytes (replicate 4097 65)\<rparr> =
     Inl (TooLargeData 4097) \<and>
   build_packet \<lparr>request_id = 1, type = 2, data = Str (replicate 4097 65)\<rparr> =
     Inl (TooLargeData 4097) \<and>
   build_packet \<lparr>request_id = 1, type = 2, data = Bytes (replicate 4096 65)\<rparr> =
     Inr ([1, 0, 0, 0, 2, 0, 0, 0] @ replicate 4096 65 @ [0]) \<and>
   build_packet \<lparr>request_id = 1, type = 2, data = Str (replicate 4096 65)\<rparr> =
     Inr ([1, 0, 0, 0, 2, 0, 0, 0] @ replicate 4096 65 @ [0]) \<and>
   send_text_packet \<lparr>request_id = 1, type = 2, data = Str (replicate 4095 65)\<rparr> (new_client []) =
     (Inr (), \<lparr>priv_i = 0, priv_reader = [],
               priv_writer = [9, 16, 0, 0, 1, 0, 0, 0, 2, 0, 0, 0] @ replicate 4095 65 @ [0, 0]\<rparr>) \<and>
   send_text_packet \<lparr>request_id = 1, type = 2, data = Str (replicate 4096 65)\<rparr> (new_client []) =
     (Inl (TooLargeData 4097), new_client [])"
proof -
  have e: "encode (replicate n 65) = Inr (replicate n 65)" for n
    using encode_replicate_ascii [of 65 n] by simp
  note t = payload_size_limit [of _ 1 2 _ "new_client []"]
  show ?thesis
    using t [of "replicate 4097 65" "replicate 4097 65"]
      t [of "replicate 4096 65" "replicate 4096 65"]
      t [of "replicate 4095 65" "replicate 4095 65"]
    by (simp add: e le_bytes_4 new_client_def)
qed

section \<open>Sending and receiving the same packet\<close>

lemma recv_packet_frame:
  assumes "length body = n" and "9 \<le> n" and "n \<le> 1455"
  shows "recv_packet (c\<lparr>priv_reader := (le_bytes 4 (int n) @ body) # rest\<rparr>) =
           (Inr \<lparr>request_id = from_bytes (take 4 body) True,
                 type = from_bytes (take 4 (drop 4 body)) True,
                 data = Bytes (take (n - 9) (drop 8 body))\<rparr>, c\<lparr>priv_reader := rest\<rparr>)"
proof -
  have ne: "body \<noteq> []" using assms by auto
  have r1: "client_read 4 (c\<lparr>priv_reader := (le_bytes 4 (int n) @ body) # rest\<rparr>) =
              (le_bytes 4 (int n), c\<lparr>priv_reader := body # rest\<rparr>)"
    using ne by (simp add: client_read_def length_le_bytes le_bytes_nonempty)
  have r2: "client_read n (c\<lparr>priv_reader := body # rest\<rparr>) = (body, c\<lparr>priv_reader := rest\<rparr>)"
    using ne assms(1) by (simp add: client_read_def)
  have fb: "nat (from_bytes (le_bytes 4 (int n)) False) = n"
    using assms(3) by (simp add: to_from_unsigned)
  show ?thesis
    unfolding recv_packet_def Let_def r1 prod.case fb r2
    using assms by (simp add: length_le_bytes slice_0 slice_4_8 slice_8_last)
qed

lemma recv_sent_packet:
  assumes "length d \<le> 1446" and "- (2 ^ 31) \<le> i" and "i < 2 ^ 31"
    and "- (2 ^ 31) \<le> t" and "t < 2 ^ 31"
  shows "recv_packet (c\<lparr>priv_reader :=
            (le_bytes 4 (int (length d + 9)) @ le_bytes 4 i @ le_bytes 4 t @ d @ [0]) # rest\<rparr>) =
           (Inr \<lparr>request_id = i, type = t, data = Bytes d\<rparr>, c\<lparr>priv_reader := rest\<rparr>)"
proof -
  let ?body = "le_bytes 4 i @ le_bytes 4 t @ d @ [0]"
  have l: "length ?body = length d + 9" by (simp add: length_le_bytes)
  have a: "take 4 ?body = le_bytes 4 i" by (simp add: length_le_bytes)
  have b: "take 4 (drop 4 ?body) = le_bytes 4 t" by (simp add: length_le_bytes)
  have p: "take (length d + 9 - 9) (drop 8 ?body) = d" by (simp add: length_le_bytes)
  from recv_packet_frame [where c = c and rest = rest, OF l] assms(1) show ?thesis
    unfolding a b p
    by (simp add: to_from_signed [OF assms(2,3)] to_from_signed [OF assms(4,5)])
qed


lemma of_nat_byte_nonzero: "0 < n \<Longrightarrow> n < 256 \<Longrightarrow> (of_nat n :: byte) \<noteq> 0"
  by (auto simp: word_of_nat_eq_0_iff dest: dvd_imp_le)

lemma encode_char_nul:
  assumes "encode_char cp = Inr bs"
  shows "0 \<in> set bs \<longleftrightarrow> cp = 0"
proof (cases "cp < 128")
  case True
  with assms have "bs = [of_nat cp]" by (simp add: encode_char_def)
  then show ?thesis using True of_nat_byte_nonzero [of cp] by (cases "cp = 0") auto
next
  case False
  have m: "of_nat (128 + k mod 64) \<noteq> (0 :: byte)" for k :: nat
    by (rule of_nat_byte_nonzero) (simp_all add: less_le_trans [OF mod_less_divisor [of 64 k]])
  have "0 \<notin> set bs"
  proof (cases "cp < 2048")
    case True
    have "of_nat (192 + cp div 64) \<noteq> (0 :: byte)"
      using True by (intro of_nat_byte_nonzero) simp_all
    with assms False True m show ?thesis by (auto simp: encode_char_def)
  next
    case c2: False
    show ?thesis
    proof (cases "cp < 65536")
      case True
      have "of_nat (224 + cp div 4096) \<noteq> (0 :: byte)"
        using True by (intro of_nat_byte_nonzero) simp_all
      with assms False c2 True m show ?thesis by (auto simp: encode_char_def split: if_splits)
    next
      case c3: False
      have "of_nat (240 + cp div 262144) \<noteq> (0 :: byte)" if "cp < 1114112"
        using that by (intro of_nat_byte_nonzero) simp_all
      with assms False c2 c3 m show ?thesis by (auto simp: encode_char_def split: if_splits)
    qed
  qed
  with False show ?thesis by simp
qed

lemma encode_nul: "encode s = Inr b \<Longrightarrow> 0 \<in> set b \<longleftrightarrow> 0 \<in> set s"
proof (induction s arbitrary: b)
  case Nil then show ?case by simp
next
  case (Cons cp s)
  then obtain bs rest where e: "encode_char cp = Inr bs" "encode s = Inr rest" "b = bs @ rest"
    by (auto split: sum.splits)
  from Cons.IH [OF e(2)] encode_char_nul [OF e(1)] e(3) show ?case by auto
qed


text \<open>
  C3, as the code has it. For a request id and a type in the 32-bit signed range: a byte
  payload of at most 1446 bytes that \<open>_send_packet\<close> writes is read back by
  \<open>_recv_packet\<close>, from a reader that holds the written frame as its next chunk, with
  the same id, type and payload; text without a NUL character whose encoding has at most
  1445 bytes, written by \<open>_send_text_packet\<close>, is read back by \<open>_recv_text_packet\<close>
  with the same id and type and the encoded text as payload.
\<close>

theorem packet_round_trip:
  assumes "- (2 ^ 31) \<le> i" and "i < 2 ^ 31" and "- (2 ^ 31) \<le> t" and "t < 2 ^ 31"
  shows "(length d \<le> 1446 \<longrightarrow>
            (\<exists>w. send_packet \<lparr>request_id = i, type = t, data = Bytes d\<rparr> (new_client []) =
                   (Inr (), \<lparr>priv_i = 0, priv_reader = [], priv_writer = w\<rparr>) \<and>
                 recv_packet (new_client (w # rest)) =
                   (Inr \<lparr>request_id = i, type = t, data = Bytes d\<rparr>, new_client rest))) \<and>
         (encode s = Inr b \<and> 0 \<notin> set s \<and> length b \<le> 1445 \<longrightarrow>
            (\<exists>w. send_text_packet \<lparr>request_id = i, type = t, data = Str s\<rparr> (new_client []) =
                   (Inr (), \<lparr>priv_i = 0, priv_reader = [], priv_writer = w\<rparr>) \<and>
                 recv_text_packet (new_client (w # rest)) =
                   (Inr \<lparr>request_id = i, type = t, data = Bytes b\<rparr>, new_client rest)))"
proof (intro conjI impI)
  assume d: "length d \<le> 1446"
  let ?w = "le_bytes 4 (int (length d + 9)) @ le_bytes 4 i @ le_bytes 4 t @ d @ [0]"
  have "send_packet \<lparr>request_id = i, type = t, data = Bytes d\<rparr> (new_client []) =
          (Inr (), \<lparr>priv_i = 0, priv_reader = [], priv_writer = ?w\<rparr>)"
    using send_packet_ok [of d i t "new_client []"] d assms by (simp add: new_client_def)
  moreover have "recv_packet (new_client (?w # rest)) =
          (Inr \<lparr>request_id = i, type = t, data = Bytes d\<rparr>, new_client rest)"
    using recv_sent_packet [where c = "new_client []" and rest = rest, OF d assms] by (simp add: new_client_def)
  ultimately show "\<exists>w. send_packet \<lparr>request_id = i, type = t, data = Bytes d\<rparr> (new_client []) =
                   (Inr (), \<lparr>priv_i = 0, priv_reader = [], priv_writer = w\<rparr>) \<and>
                 recv_packet (new_client (w # rest)) =
                   (Inr \<lparr>request_id = i, type = t, data = Bytes d\<rparr>, new_client rest)"
    by blast
next
  assume a: "encode s = Inr b \<and> 0 \<notin> set s \<and> length b \<le> 1445"
  then have e: "encode s = Inr b" and z: "0 \<notin> set b" and l: "length b \<le> 1445"
    using encode_nul [of s b] by simp_all
  let ?w = "le_bytes 4 (int (length b + 10)) @ le_bytes 4 i @ le_bytes 4 t @ b @ [0, 0]"
  have s: "send_text_packet \<lparr>request_id = i, type = t, data = Str s\<rparr> (new_client []) =
          (Inr (), \<lparr>priv_i = 0, priv_reader = [], priv_writer = ?w\<rparr>)"
    using send_text_packet_ok [OF e _ assms, of "new_client []"] l by (simp add: new_client_def)
  have "length (b @ [0]) \<le> 1446" using l by simp
  from recv_sent_packet [where c = "new_client []" and rest = rest, OF this assms]
  have r: "recv_packet (new_client (?w # rest)) =
          (Inr \<lparr>request_id = i, type = t, data = Bytes (b @ [0])\<rparr>, new_client rest)"
    by (simp add: new_client_def add.commute)
  have f: "bytes_find (b @ [0]) 0 = int (length b)"
    using z by (induction b) (auto simp: Let_def)
  have "recv_text_packet (new_client (?w # rest)) =
          (Inr \<lparr>request_id = i, type = t, data = Bytes b\<rparr>, new_client rest)"
    unfolding recv_text_packet_def r by (simp add: must_bytes_def f Let_def slice_0)
  with s show "\<exists>w. send_text_packet \<lparr>request_id = i, type = t, data = Str s\<rparr> (new_client []) =
                   (Inr (), \<lparr>priv_i = 0, priv_reader = [], priv_writer = w\<rparr>) \<and>
                 recv_text_packet (new_client (w # rest)) =
                   (Inr \<lparr>request_id = i, type = t, data = Bytes b\<rparr>, new_client rest)"
    by blast
qed


theorem packet_round_trip_witness:
  "(\<exists>w. send_packet \<lparr>request_id = - 5, type = 2, data = Bytes [65, 0, 66]\<rparr> (new_client []) =
          (Inr (), \<lparr>priv_i = 0, priv_reader = [], priv_writer = w\<rparr>) \<and>
        recv_packet (new_client [w]) =
          (Inr \<lparr>request_id = - 5, type = 2, data = Bytes [65, 0, 66]\<rparr>, new_client [])) \<and>
   (\<exists>w. send_text_packet \<lparr>request_id = - 5, type = 2, data = Str [104, 233]\<rparr> (new_client []) =
          (Inr (), \<lparr>priv_i = 0, priv_reader = [], priv_writer = w\<rparr>) \<and>
        recv_text_packet (new_client [w]) =
          (Inr \<lparr>request_id = - 5, type = 2, data = Bytes [104, 195, 169]\<rparr>, new_client []))"
  using packet_round_trip [of "- 5" 2 "[65, 0, 66]" "[]" "[104, 233]" "[104, 195, 169]"]
  by (simp add: encode_char_def)

text \<open>
  C3 as stated fails for the text pair. The text "a", NUL, "b" is 3 bytes long and is
  sent, and comes back as "a" alone: the text receiver keeps what precedes the first null
  byte. Text of 4096 bytes is within the stated bound and is not sent at all: with the
  terminator it is one byte over the limit of the encoder. A type of 2^31 is an int the
  packet may hold and does not fit the four bytes of the header.
\<close>

theorem packet_round_trip_counterexample:
  "encode [97, 0, 98] = Inr [97, 0, 98] \<and>
   send_text_packet \<lparr>request_id = 0, type = 2, data = Str [97, 0, 98]\<rparr> (new_client []) =
     (Inr (), \<lparr>priv_i = 0, priv_reader = [],
               priv_writer = [13, 0, 0, 0, 0, 0, 0, 0, 2, 0, 0, 0, 97, 0, 98, 0, 0]\<rparr>) \<and>
   recv_text_packet (new_client [[13, 0, 0, 0, 0, 0, 0, 0, 2, 0, 0, 0, 97, 0, 98, 0, 0]]) =
     (Inr \<lparr>request_id = 0, type = 2, data = Bytes [97]\<rparr>, new_client []) \<and>
   fst (recv_text_packet (new_client [[13, 0, 0, 0, 0, 0, 0, 0, 2, 0, 0, 0, 97, 0, 98, 0, 0]])) \<noteq>
     Inr \<lparr>request_id = 0, type = 2, data = Bytes [97, 0, 98]\<rparr> \<and>
   encode (replicate 4096 97) = Inr (replicate 4096 97) \<and>
   send_text_packet \<lparr>request_id = 0, type = 2, data = Str (replicate 4096 97)\<rparr> (new_client []) =
     (Inl (TooLargeData 4097), new_client []) \<and>
   send_packet \<lparr>request_id = 0, type = 2147483648, data = Bytes []\<rparr> (new_client []) =
     (Inl OverflowError, new_client [])"
proof -
  have o: "send_packet \<lparr>request_id = 0, type = 2147483648, data = Bytes []\<rparr> (new_client []) =
     (Inl OverflowError, new_client [])"
    by (simp add: send_packet_def build_packet_def to_bytes_def)
  have e: "encode (replicate 4096 97) = Inr (replicate 4096 97)"
    using encode_replicate_ascii [of 97 4096] by simp
  have r: "recv_text_packet (new_client [[13, 0, 0, 0, 0, 0, 0, 0, 2, 0, 0, 0, 97, 0, 98, 0, 0]]) =
     (Inr \<lparr>request_id = 0, type = 2, data = Bytes [97]\<rparr>, new_client [])"
    by (simp add: recv_defs)
  have s: "send_text_packet \<lparr>request_id = 0, type = 2, data = Str [97, 0, 98]\<rparr> (new_client []) =
     (Inr (), \<lparr>priv_i = 0, priv_reader = [],
               priv_writer = [13, 0, 0, 0, 0, 0, 0, 0, 2, 0, 0, 0, 97, 0, 98, 0, 0]\<rparr>)"
    by (simp add: send_defs)
  have "encode [97, 0, 98] = Inr [97, 0, 98]" by (simp add: encode_char_def)
  with e r s o send_text_packet_too_large [OF e, of 0 2 "new_client []"] show ?thesis by simp
qed

text \<open>
  C1 on the code. The server answers request 0 with a fragment of 4096 payload bytes and
  then one of 10 bytes, each with its terminator and pad byte. The first frame declares
  4106 bytes; the receiver refuses every frame above 1455 bytes, so \<open>execute\<close> raises
  "too big packet" on the first fragment and returns nothing.
\<close>

theorem execute_full_fragment_rejected:
  "fst (execute [104]
         (new_client [[10, 16, 0, 0, 0, 0, 0, 0, 0, 0, 0, 0] @ replicate 4096 65 @ [0, 0],
                      [20, 0, 0, 0, 0, 0, 0, 0, 0, 0, 0, 0] @ replicate 10 66 @ [0, 0]])) =
     Inl (TooBigPacket 4106)"
proof -
  let ?r = "[[10, 16, 0, 0, 0, 0, 0, 0, 0, 0, 0, 0] @ replicate 4096 65 @ [0, 0],
             [20, 0, 0, 0, 0, 0, 0, 0, 0, 0, 0, 0] @ replicate 10 66 @ [0, 0 :: byte]]"
  let ?c1 = "\<lparr>priv_i = 1, priv_reader = ?r,
              priv_writer = [11, 0, 0, 0, 0, 0, 0, 0, 2, 0, 0, 0, 104, 0, 0 :: byte]\<rparr>"
  have s: "send_text_packet \<lparr>request_id = 0, type = 2, data = Str [104]\<rparr>
             (new_client ?r\<lparr>priv_i := 1\<rparr>) = (Inr (), ?c1)"
    by (simp add: send_defs)
  have "fst (recv_packet ?c1) = Inl (TooBigPacket 4106)"
    by (simp add: recv_packet_def client_read_def from_bytes_def)
  then have "fst (recv_text_packet ?c1) = Inl (TooBigPacket 4106)"
    by (auto simp: recv_text_packet_def split: prod.splits sum.splits)
  then have "fst (execute_body 0 [] ?c1) = Inl (TooBigPacket 4106)"
    by (auto simp: execute_body_def split: prod.splits sum.splits)
  then have "fst (execute_loop 0 [] ?c1) = Inl (TooBigPacket 4106)"
    by (subst execute_loop.simps) (auto split: prod.splits sum.splits)
  with s show ?thesis
    by (simp add: execute_def new_client_def)
qed

end
